theory Spec2Isabelle
  imports Main
begin

section \<open>The CONNECT tunnel handler of http-proxy (package httpconnect)\<close>

text \<open>
  A shallow embedding of \<^verbatim>\<open>src/httpconnect/httpconnect.go\<close>. Pure code is a HOL
  function; code acting on the response writer, the logger or the network returns the
  list of calls it makes, in program order, with the results of the calls it cannot
  decide itself (hijack, dial, copy, close) supplied from outside. The relay, which runs
  on two goroutines, is a transition system driven by a schedule.
\<close>

subsection \<open>Errors\<close>

datatype addr_reason =
    MissingPort         \<comment> \<open>"missing port in address"\<close>
  | TooManyColons       \<comment> \<open>"too many colons in address"\<close>
  | MissingBracket      \<comment> \<open>"missing ']' in address"\<close>
  | UnexpectedOpen      \<comment> \<open>"unexpected '[' in address"\<close>
  | UnexpectedClose     \<comment> \<open>"unexpected ']' in address"\<close>

datatype error =
    NumError string               \<comment> \<open>strconv.NumError for the given input\<close>
  | AddrError addr_reason string  \<comment> \<open>net.AddrError: reason and address\<close>
  | ErrorString string            \<comment> \<open>errors.New\<close>
  | NetError string               \<comment> \<open>any error reported by a connection or by the transport\<close>

subsection \<open>Go standard library functions the handler calls\<close>

text \<open>
  These functions are not part of the repository; they follow the current Go standard
  library.
  \<^verbatim>\<open>strings.Split(s, ",")\<close> cuts \<open>s\<close> at every separator and returns every piece,
  empty ones too; a string without a separator is returned whole, as the only piece.
\<close>

function Split :: "string \<Rightarrow> char \<Rightarrow> string list" where
  "Split s sep =
     (case dropWhile (\<lambda>c. c \<noteq> sep) s of
        [] \<Rightarrow> [s]
      | _ # rest \<Rightarrow> takeWhile (\<lambda>c. c \<noteq> sep) s # Split rest sep)"
  by pat_completeness auto
termination
proof (relation "measure (\<lambda>(s, sep). length s)")
  show "wf (measure (\<lambda>(s, sep). length s))" by simp
next
  fix s :: string and sep x21 x22
  assume "dropWhile (\<lambda>c. c \<noteq> sep) s = x21 # x22"
  then have "length (x21 # x22) \<le> length s"
    using length_dropWhile_le [of "\<lambda>c. c \<noteq> sep" s] by simp
  then show "((x22, sep), (s, sep)) \<in> measure (\<lambda>(s, sep). length s)" by simp
qed

declare Split.simps [simp del]

text \<open>
  \<^verbatim>\<open>strconv.Atoi\<close>: an optional sign, then at least one decimal digit and nothing
  else; the value has to fit an \<^verbatim>\<open>int\<close>, taken here as 64 bits wide. The kind of
  failure (syntax or range) is not kept: the handler compares the error with nil only.
\<close>

definition isDigit :: "char \<Rightarrow> bool" where
  "isDigit ch \<longleftrightarrow> 48 \<le> (of_char ch :: nat) \<and> (of_char ch :: nat) \<le> 57"

fun digits :: "int \<Rightarrow> string \<Rightarrow> int option" where
  "digits n [] = Some n"
| "digits n (ch # s) =
     (if isDigit ch then digits (n * 10 + (int (of_char ch) - 48)) s else None)"

definition intSize :: nat where
  "intSize = 64"

definition Atoi :: "string \<Rightarrow> error + int" where
  "Atoi s0 =
     (let neg = (take 1 s0 = ''-'');
          s = (if take 1 s0 = ''-'' \<or> take 1 s0 = ''+'' then drop 1 s0 else s0)
      in if s = [] then Inl (NumError s0)
         else case digits 0 s of
                None \<Rightarrow> Inl (NumError s0)
              | Some n \<Rightarrow>
                  (let v = (if neg then - n else n)
                   in if - (2 ^ (intSize - 1)) \<le> v \<and> v < 2 ^ (intSize - 1)
                      then Inr v else Inl (NumError s0)))"

text \<open>
  \<^verbatim>\<open>net.SplitHostPort\<close>: the port is what follows the last colon; the host may be
  bracketed (an IPv6 literal), and an unbracketed host holds no colon.
\<close>

fun IndexByte :: "string \<Rightarrow> char \<Rightarrow> nat option" where
  "IndexByte [] c = None"
| "IndexByte (x # xs) c = (if x = c then Some 0 else map_option Suc (IndexByte xs c))"

definition LastIndexByte :: "string \<Rightarrow> char \<Rightarrow> nat option" where
  "LastIndexByte s c = map_option (\<lambda>k. length s - 1 - k) (IndexByte (rev s) c)"

definition SplitHostPort :: "string \<Rightarrow> error + (string \<times> string)" where
  "SplitHostPort hostport =
     (case LastIndexByte hostport CHR '':'' of
        None \<Rightarrow> Inl (AddrError MissingPort hostport)
      | Some i \<Rightarrow>
          (let rest = (\<lambda>host j k.
                 if IndexByte (drop j hostport) CHR ''['' \<noteq> None
                   then Inl (AddrError UnexpectedOpen hostport)
                 else if IndexByte (drop k hostport) CHR '']'' \<noteq> None
                   then Inl (AddrError UnexpectedClose hostport)
                 else Inr (host, drop (i + 1) hostport))
           in if take 1 hostport = ''[''
              then (case IndexByte hostport CHR '']'' of
                      None \<Rightarrow> Inl (AddrError MissingBracket hostport)
                    | Some e \<Rightarrow>
                        if e + 1 = length hostport then Inl (AddrError MissingPort hostport)
                        else if e + 1 = i then rest (take (e - 1) (drop 1 hostport)) 1 (e + 1)
                        else if hostport ! (e + 1) = CHR '':''
                          then Inl (AddrError TooManyColons hostport)
                        else Inl (AddrError MissingPort hostport))
              else if IndexByte (take i hostport) CHR '':'' \<noteq> None
                then Inl (AddrError TooManyColons hostport)
              else rest (take i hostport) 0 0))"

subsection \<open>The handler and its construction\<close>

text \<open>
  \<^verbatim>\<open>HTTPConnectHandler\<close>. The next handler is a value of any type \<open>'h\<close>; a duration is
  a number of nanoseconds.
\<close>

record 'h HTTPConnectHandler =
  next_handler :: 'h
  idleTimeout :: int
  allowedPorts :: "int list"

type_synonym 'h optSetter = "'h HTTPConnectHandler \<Rightarrow> error + 'h HTTPConnectHandler"

definition IdleTimeoutSetter :: "int \<Rightarrow> 'h optSetter" where
  "IdleTimeoutSetter i = (\<lambda>f. Inr (f\<lparr>idleTimeout := i\<rparr>))"

definition AllowedPorts :: "int list \<Rightarrow> 'h optSetter" where
  "AllowedPorts ports = (\<lambda>f. Inr (f\<lparr>allowedPorts := ports\<rparr>))"

text \<open>The loop of \<^verbatim>\<open>AllowedPortsFromCSV\<close> over the fields: the first field that
  \<^verbatim>\<open>Atoi\<close> rejects ends it with that error.\<close>

fun parsePorts :: "string list \<Rightarrow> error + int list" where
  "parsePorts [] = Inr []"
| "parsePorts (fld # flds) =
     (case Atoi fld of
        Inl err \<Rightarrow> Inl err
      | Inr p \<Rightarrow> (case parsePorts flds of
                    Inl err \<Rightarrow> Inl err
                  | Inr ports \<Rightarrow> Inr (p # ports)))"

definition AllowedPortsFromCSV :: "string \<Rightarrow> 'h optSetter" where
  "AllowedPortsFromCSV csv =
     (\<lambda>f. case parsePorts (Split csv CHR '','') of
             Inl err \<Rightarrow> Inl err
           | Inr ports \<Rightarrow> Inr (f\<lparr>allowedPorts := ports\<rparr>))"

text \<open>The loop of \<^verbatim>\<open>New\<close> over the setters.\<close>

fun applySetters :: "'h optSetter list \<Rightarrow> 'h optSetter" where
  "applySetters [] f = Inr f"
| "applySetters (s # setters) f =
     (case s f of
        Inl err \<Rightarrow> Inl err
      | Inr f' \<Rightarrow> applySetters setters f')"

text \<open>\<^verbatim>\<open>New\<close>; \<open>None\<close> is the nil handler. The fields no setter touches keep Go's zero
  values.\<close>

definition New :: "'h option \<Rightarrow> 'h optSetter list \<Rightarrow> error + 'h HTTPConnectHandler" where
  "New nxt setters =
     (case nxt of
        None \<Rightarrow> Inl (ErrorString ''Next handler is not defined (nil)'')
      | Some n \<Rightarrow>
          applySetters setters \<lparr>next_handler = n, idleTimeout = 0, allowedPorts = []\<rparr>)"

subsection \<open>Requests, connections and the calls the handler makes\<close>

text \<open>
  Of a request the handler reads the method and the host; a request may carry more
  (the record is extensible). A connection is the one the hijack returned, the one the
  dial returned, or the idle-timing wrapper around a connection: three kinds of handle,
  none equal to another. Hijack and dial return a non-nil connection whenever they return
  no error, and \<^verbatim>\<open>idletiming.Conn\<close> returns a non-nil wrapper, so the nil tests of
  \<^verbatim>\<open>closeConns\<close> and of the idle callback always pass.
\<close>

record Request =
  Method :: string
  Host :: string

datatype conn =
    Hijacked nat
  | Dialed nat
  | IdleTimingConn conn int   \<comment> \<open>the wrapped connection and the idle timeout\<close>

datatype level = Trace | Debug | Error

text \<open>One constructor for each call that leaves the handler. Log calls keep their format
  string, not their arguments; a call that logs a value without a format, as
  \<^verbatim>\<open>log.Error(err)\<close> does, has the format \<^verbatim>\<open>%v\<close>.\<close>

datatype ('h, 'r) event =
    NextServeHTTP 'h 'r               \<comment> \<open>\<^verbatim>\<open>f.next.ServeHTTP(w, req)\<close>\<close>
  | DumpRequest 'r                    \<comment> \<open>\<^verbatim>\<open>httputil.DumpRequest(req, true)\<close>\<close>
  | Log level string                  \<comment> \<open>a call of the package logger\<close>
  | OpsEnter string                   \<comment> \<open>\<^verbatim>\<open>ops.Enter\<close>\<close>
  | OpExit                            \<comment> \<open>\<^verbatim>\<open>op.Exit()\<close>\<close>
  | OpErrorf string                   \<comment> \<open>\<^verbatim>\<open>op.Errorf\<close>\<close>
  | OpGo                              \<comment> \<open>\<^verbatim>\<open>op.Go\<close>: a goroutine is started\<close>
  | WriteHeader nat                   \<comment> \<open>\<^verbatim>\<open>w.WriteHeader(statusCode)\<close>\<close>
  | Fprintf string                    \<comment> \<open>\<^verbatim>\<open>fmt.Fprintf(w, "%v", reason)\<close>\<close>
  | RespondOK                         \<comment> \<open>\<^verbatim>\<open>utils.RespondOK(w, req)\<close>\<close>
  | RespondBadGateway                 \<comment> \<open>\<^verbatim>\<open>utils.RespondBadGateway(w, req, desc)\<close>\<close>
  | Hijack                            \<comment> \<open>\<^verbatim>\<open>w.(http.Hijacker).Hijack()\<close>\<close>
  | DialTimeout string string int     \<comment> \<open>\<^verbatim>\<open>net.DialTimeout(network, address, timeout)\<close>\<close>
  | IdletimingConn conn int           \<comment> \<open>\<^verbatim>\<open>idletiming.Conn(conn, timeout, onIdle)\<close>\<close>
  | WgAdd int                         \<comment> \<open>\<^verbatim>\<open>readFinished.Add\<close>\<close>
  | WgDone                            \<comment> \<open>\<^verbatim>\<open>readFinished.Done()\<close>\<close>
  | WgWait                            \<comment> \<open>\<^verbatim>\<open>readFinished.Wait()\<close> has returned\<close>
  | BuffersGet                        \<comment> \<open>\<^verbatim>\<open>buffers.Get()\<close>\<close>
  | BuffersPut                        \<comment> \<open>\<^verbatim>\<open>buffers.Put(buf)\<close>\<close>
  | Read conn                         \<comment> \<open>a read on the connection, inside \<^verbatim>\<open>io.CopyBuffer\<close>\<close>
  | Write conn                        \<comment> \<open>a write on the connection, inside \<^verbatim>\<open>io.CopyBuffer\<close>\<close>
  | CopyBuffer conn conn "error option"  \<comment> \<open>\<^verbatim>\<open>io.CopyBuffer(dst, src, buf)\<close> has returned\<close>
  | Close conn "error option"         \<comment> \<open>\<^verbatim>\<open>Close()\<close> on the connection, and what it returned\<close>

text \<open>What the handler cannot decide: whether trace logging is on, what the hijack
  returns (\<open>None\<close>: the response writer is no \<^verbatim>\<open>http.Hijacker\<close>), what the dial
  returns.\<close>

record env =
  traceEnabled :: bool
  hijacker :: "(error + nat) option"
  dial :: "error + nat"

text \<open>How a function ends: it returns (\<^verbatim>\<open>intercept\<close> returns its \<^verbatim>\<open>err\<close>), it
  panics, or it has set up the two connections and goes on with the relay (lines 143
  to 177 of \<^verbatim>\<open>intercept\<close>, the transition system below).\<close>

datatype outcome =
    Returned "error option"
  | Panicked
  | Relaying conn conn conn   \<comment> \<open>\<^verbatim>\<open>clientConn\<close>, \<^verbatim>\<open>connOutRaw\<close>, \<^verbatim>\<open>connOut\<close>\<close>

definition StatusBadRequest :: nat where
  "StatusBadRequest = 400"

definition StatusForbidden :: nat where
  "StatusForbidden = 403"

definition Second :: int where
  "Second = 1000000000"

subsection \<open>Serving a request\<close>

definition ServeError ::
  "'a Request_scheme \<Rightarrow> nat \<Rightarrow> string \<Rightarrow> ('h, 'a Request_scheme) event list" where
  "ServeError req statusCode reason =
     [OpErrorf ''Respond error to CONNECT request to %s: %d %v'',
      Log Error ''%v'',
      WriteHeader statusCode,
      Fprintf reason]"

text \<open>The loop of \<^verbatim>\<open>portAllowed\<close> over the allowed ports.\<close>

fun portInList :: "int \<Rightarrow> int list \<Rightarrow> bool" where
  "portInList port [] = False"
| "portInList port (p # ps) = (if port = p then True else portInList port ps)"

definition portAllowed ::
  "'h HTTPConnectHandler \<Rightarrow> 'a Request_scheme \<Rightarrow>
     ('h, 'a Request_scheme) event list \<times> bool" where
  "portAllowed f req =
     (if length (allowedPorts f) = 0 then ([], True)
      else
        let tr = [Log Trace ''Checking CONNECT tunnel to %s against allowed ports %v'']
        in case SplitHostPort (Host req) of
             Inl err \<Rightarrow>
               (tr @ ServeError req StatusBadRequest
                       ''No port field in Request-URI / Host header'', False)
           | Inr (h, portString) \<Rightarrow>
               (case Atoi portString of
                  Inl err \<Rightarrow> (tr @ ServeError req StatusBadRequest ''Invalid port'', False)
                | Inr port \<Rightarrow>
                    if portInList port (allowedPorts f) then (tr, True)
                    else (tr @ ServeError req StatusForbidden ''Port not allowed'', False)))"

text \<open>\<^verbatim>\<open>intercept\<close> up to the relay.\<close>

definition intercept ::
  "'h HTTPConnectHandler \<Rightarrow> env \<Rightarrow> 'a Request_scheme \<Rightarrow>
     ('h, 'a Request_scheme) event list \<times> outcome" where
  "intercept f e req =
     (case hijacker e of
        None \<Rightarrow> ([RespondOK], Panicked)
      | Some (Inl err) \<Rightarrow>
          ([RespondOK, Hijack, OpErrorf ''Unable to hijack connection: %s'',
            RespondBadGateway], Returned (Some err))
      | Some (Inr c) \<Rightarrow>
          (case dial e of
             Inl err \<Rightarrow>
               ([RespondOK, Hijack, DialTimeout ''tcp'' (Host req) (10 * Second),
                 OpErrorf ''Unable to dial %v: %v''], Returned (Some err))
           | Inr d \<Rightarrow>
               ([RespondOK, Hijack, DialTimeout ''tcp'' (Host req) (10 * Second),
                 IdletimingConn (Dialed d) (idleTimeout f)],
                Relaying (Hijacked c) (Dialed d) (IdleTimingConn (Dialed d) (idleTimeout f)))))"

text \<open>Lines 83 to 86 of \<^verbatim>\<open>ServeHTTP\<close>: the request is dumped to the log when trace
  logging is on.\<close>

definition traceRequest :: "env \<Rightarrow> 'a Request_scheme \<Rightarrow> ('h, 'a Request_scheme) event list" where
  "traceRequest e req =
     (if traceEnabled e
      then [DumpRequest req,
            Log Trace (''HTTPConnectHandler Middleware received request:'' @
                       [CHR 0x0A] @ ''%s'')]
      else [])"

text \<open>\<^verbatim>\<open>ServeHTTP\<close>. The deferred \<^verbatim>\<open>op.Exit()\<close> runs when the function returns or
  panics; when the relay is entered it runs after the relay, and is not in the list.\<close>

definition ServeHTTP ::
  "'h HTTPConnectHandler \<Rightarrow> env \<Rightarrow> 'a Request_scheme \<Rightarrow>
     ('h, 'a Request_scheme) event list \<times> outcome" where
  "ServeHTTP f e req =
     (if Method req \<noteq> ''CONNECT'' then ([NextServeHTTP (next_handler f) req], Returned None)
      else
        let tr = traceRequest e req @ [OpsEnter ''proxy_https''];
            (pa, allowed) = portAllowed f req
        in if allowed
           then (case intercept f e req of
                   (iv, Relaying c raw out) \<Rightarrow> (tr @ pa @ iv, Relaying c raw out)
                 | (iv, Panicked) \<Rightarrow> (tr @ pa @ iv @ [OpExit], Panicked)
                 | (iv, Returned err) \<Rightarrow> (tr @ pa @ iv @ [OpExit], Returned None))
           else (tr @ pa @ [OpExit], Returned None))"


fun isErrorResponse :: "('h, 'r) event \<Rightarrow> bool" where
  "isErrorResponse (WriteHeader statusCode) = True"
| "isErrorResponse (Fprintf reason) = True"
| "isErrorResponse RespondBadGateway = True"
| "isErrorResponse ev = False"

fun isAnyClose :: "('h, 'r) event \<Rightarrow> bool" where
  "isAnyClose (Close x r) = True"
| "isAnyClose ev = False"

subsection \<open>The relay\<close>

text \<open>
  Lines 143 to 177 of \<^verbatim>\<open>intercept\<close> run on two goroutines: the calling path
  (\<^verbatim>\<open>Add\<close>, \<^verbatim>\<open>op.Go\<close>, \<^verbatim>\<open>buffers.Get\<close>, the download copy, \<^verbatim>\<open>Wait\<close>,
  \<^verbatim>\<open>closeConns\<close>, the deferred \<^verbatim>\<open>buffers.Put\<close>) and the upload goroutine
  (\<^verbatim>\<open>buffers.Get\<close>, the upload copy, \<^verbatim>\<open>Done\<close>, the deferred \<^verbatim>\<open>buffers.Put\<close>).
  Each has a program counter naming the statement it runs next; the two share the
  counter of the wait group \<^verbatim>\<open>readFinished\<close>.
\<close>

datatype main_pc =
    MAdd | MGo | MGet | MCopy | MWait | MCloseClient | MCloseOut | MPut | MReturned

datatype up_pc =
    UNotStarted | UGet | UCopy | UDone | UPut | UExited

record session =
  clientConn :: conn
  connOutRaw :: conn
  connOut :: conn

record ('h, 'r) relay =
  mpc :: main_pc
  upc :: up_pc
  readFinished :: int
  events :: "('h, 'r) event list"

definition relay_init :: "('h, 'r) relay" where
  "relay_init = \<lparr>mpc = MAdd, upc = UNotStarted, readFinished = 0, events = []\<rparr>"

text \<open>
  A schedule is a list of actions. \<open>Main r\<close> and \<open>Upload r\<close> run the next statement of
  a goroutine; where the statement is a call that may fail (a copy returning, a close),
  \<open>r\<close> is what it returns. A copy moves any number of chunks before it returns, or
  never returns. \<open>OnIdle r\<close> is the idle-timing wrapper calling the callback
  \<^verbatim>\<open>intercept\<close> gave it, which closes \<^verbatim>\<open>connOutRaw\<close>; it can come at any moment.
\<close>

datatype action =
    Main "error option"
  | MainChunk
  | Upload "error option"
  | UploadChunk
  | OnIdle "error option"

definition emit :: "('h, 'r) event list \<Rightarrow> ('h, 'r) relay \<Rightarrow> ('h, 'r) relay" where
  "emit evs s = s\<lparr>events := events s @ evs\<rparr>"

definition whenErr :: "error option \<Rightarrow> 'a list \<Rightarrow> 'a list" where
  "whenErr r evs = (case r of None \<Rightarrow> [] | Some err \<Rightarrow> evs)"

definition step_main :: "session \<Rightarrow> error option \<Rightarrow> ('h, 'r) relay \<Rightarrow> ('h, 'r) relay option" where
  "step_main ss r s =
     (case mpc s of
        MAdd \<Rightarrow> Some (emit [WgAdd 1] (s\<lparr>mpc := MGo, readFinished := readFinished s + 1\<rparr>))
      | MGo \<Rightarrow> Some (emit [OpGo] (s\<lparr>mpc := MGet, upc := UGet\<rparr>))
      | MGet \<Rightarrow> Some (emit [BuffersGet] (s\<lparr>mpc := MCopy\<rparr>))
      | MCopy \<Rightarrow>
          Some (emit (CopyBuffer (clientConn ss) (connOut ss) r #
                      whenErr r [OpErrorf ''Unable to write to origin: %v'', Log Debug ''%v''])
                  (s\<lparr>mpc := MWait\<rparr>))
      | MWait \<Rightarrow>
          if readFinished s = 0 then Some (emit [WgWait] (s\<lparr>mpc := MCloseClient\<rparr>)) else None
      | MCloseClient \<Rightarrow>
          Some (emit (Close (clientConn ss) r #
                      whenErr r [Log Debug ''Error closing the out connection: %s''])
                  (s\<lparr>mpc := MCloseOut\<rparr>))
      | MCloseOut \<Rightarrow>
          Some (emit (Close (connOut ss) r #
                      whenErr r [Log Debug ''Error closing the client connection: %s''])
                  (s\<lparr>mpc := MPut\<rparr>))
      | MPut \<Rightarrow> Some (emit [BuffersPut] (s\<lparr>mpc := MReturned\<rparr>))
      | MReturned \<Rightarrow> None)"

definition step_upload :: "session \<Rightarrow> error option \<Rightarrow> ('h, 'r) relay \<Rightarrow> ('h, 'r) relay option" where
  "step_upload ss r s =
     (case upc s of
        UNotStarted \<Rightarrow> None
      | UGet \<Rightarrow> Some (emit [BuffersGet] (s\<lparr>upc := UCopy\<rparr>))
      | UCopy \<Rightarrow>
          Some (emit (CopyBuffer (connOut ss) (clientConn ss) r #
                      whenErr r [OpErrorf ''Unable to read from origin: %v'', Log Debug ''%v''])
                  (s\<lparr>upc := UDone\<rparr>))
      | UDone \<Rightarrow> Some (emit [WgDone] (s\<lparr>upc := UPut, readFinished := readFinished s - 1\<rparr>))
      | UPut \<Rightarrow> Some (emit [BuffersPut] (s\<lparr>upc := UExited\<rparr>))
      | UExited \<Rightarrow> None)"

definition step :: "session \<Rightarrow> action \<Rightarrow> ('h, 'r) relay \<Rightarrow> ('h, 'r) relay option" where
  "step ss a s =
     (case a of
        Main r \<Rightarrow> step_main ss r s
      | Upload r \<Rightarrow> step_upload ss r s
      | MainChunk \<Rightarrow>
          if mpc s = MCopy then Some (emit [Read (connOut ss), Write (clientConn ss)] s)
          else None
      | UploadChunk \<Rightarrow>
          if upc s = UCopy then Some (emit [Read (clientConn ss), Write (connOut ss)] s)
          else None
      | OnIdle r \<Rightarrow> Some (emit [Close (connOutRaw ss) r] s))"

fun run :: "session \<Rightarrow> action list \<Rightarrow> ('h, 'r) relay \<Rightarrow> ('h, 'r) relay option" where
  "run ss [] s = Some s"
| "run ss (a # as) s = (case step ss a s of None \<Rightarrow> None | Some s' \<Rightarrow> run ss as s')"

text \<open>The session \<^verbatim>\<open>intercept\<close> hands to the relay.\<close>

fun session_of :: "outcome \<Rightarrow> session option" where
  "session_of (Relaying c raw out) = Some \<lparr>clientConn = c, connOutRaw = raw, connOut = out\<rparr>"
| "session_of (Returned err) = None"
| "session_of Panicked = None"

text \<open>Reading a list of events: the closes of a connection, and the reads and writes.\<close>

fun isClose :: "conn \<Rightarrow> ('h, 'r) event \<Rightarrow> bool" where
  "isClose c (Close x r) = (x = c)"
| "isClose c ev = False"

fun isIO :: "('h, 'r) event \<Rightarrow> bool" where
  "isIO (Read x) = True"
| "isIO (Write x) = True"
| "isIO ev = False"

definition closes :: "conn \<Rightarrow> ('h, 'r) event list \<Rightarrow> nat" where
  "closes c evs = length (filter (isClose c) evs)"

text \<open>
  For the proofs: how far each goroutine has come, the sessions whose three handles
  differ, and the invariant of the relay. \<open>teardown_last\<close> says that before a close of
  the client connection or of the wrapped outbound connection the upload goroutine has
  called \<^verbatim>\<open>Done\<close> and both copies have returned, and that no read or write follows it.
\<close>

fun mrank :: "main_pc \<Rightarrow> nat" where
  "mrank MAdd = 0" | "mrank MGo = 1" | "mrank MGet = 2" | "mrank MCopy = 3" | "mrank MWait = 4"
| "mrank MCloseClient = 5" | "mrank MCloseOut = 6" | "mrank MPut = 7" | "mrank MReturned = 8"

fun urank :: "up_pc \<Rightarrow> nat" where
  "urank UNotStarted = 0" | "urank UGet = 1" | "urank UCopy = 2" | "urank UDone = 3"
| "urank UPut = 4" | "urank UExited = 5"

definition wf_session :: "session \<Rightarrow> bool" where
  "wf_session ss \<longleftrightarrow> distinct [clientConn ss, connOutRaw ss, connOut ss]"

definition teardown_last :: "session \<Rightarrow> ('h, 'r) event list \<Rightarrow> bool" where
  "teardown_last ss evs \<longleftrightarrow>
     (\<forall>pre x r post.
        evs = pre @ Close x r # post \<and> (x = clientConn ss \<or> x = connOut ss) \<longrightarrow>
          WgDone \<in> set pre \<and>
          (\<exists>r'. CopyBuffer (connOut ss) (clientConn ss) r' \<in> set pre) \<and>
          (\<exists>r'. CopyBuffer (clientConn ss) (connOut ss) r' \<in> set pre) \<and>
          \<not> list_ex isIO post)"

definition relay_inv :: "session \<Rightarrow> ('h, 'r) relay \<Rightarrow> bool" where
  "relay_inv ss s \<longleftrightarrow>
     (upc s = UNotStarted \<longleftrightarrow> mrank (mpc s) < 2) \<and>
     readFinished s = (if mrank (mpc s) = 0 \<or> 4 \<le> urank (upc s) then 0 else 1) \<and>
     (5 \<le> mrank (mpc s) \<longrightarrow> 4 \<le> urank (upc s)) \<and>
     closes (clientConn ss) (events s) = (if 6 \<le> mrank (mpc s) then 1 else 0) \<and>
     closes (connOut ss) (events s) = (if 7 \<le> mrank (mpc s) then 1 else 0) \<and>
     (WgDone \<in> set (events s) \<longleftrightarrow> 4 \<le> urank (upc s)) \<and>
     ((\<exists>r. CopyBuffer (connOut ss) (clientConn ss) r \<in> set (events s)) \<longleftrightarrow> 3 \<le> urank (upc s)) \<and>
     ((\<exists>r. CopyBuffer (clientConn ss) (connOut ss) r \<in> set (events s)) \<longleftrightarrow> 4 \<le> mrank (mpc s)) \<and>
     teardown_last ss (events s)"

section \<open>Properties\<close>

subsection \<open>The library functions and the loops\<close>

lemma Split_nonempty: "Split s sep \<noteq> []"
  by (subst Split.simps) (simp split: list.splits)

lemma Split_empty: "Split [] sep = [[]]"
  by (simp add: Split.simps)

lemma Atoi_empty: "Atoi [] = Inl (NumError [])"
  by (simp add: Atoi_def)

lemma parsePorts_fails_iff:
  "(\<exists>err. parsePorts flds = Inl err) \<longleftrightarrow> (\<exists>fld \<in> set flds. \<exists>err. Atoi fld = Inl err)"
  by (induction flds) (auto split: sum.splits)

lemma parsePorts_Inr_iff:
  "parsePorts flds = Inr ports \<longleftrightarrow> map Atoi flds = map Inr ports"
proof (induction flds arbitrary: ports)
  case Nil
  show ?case by auto
next
  case (Cons fld flds)
  show ?case
  proof (cases "Atoi fld")
    case (Inl err)
    then show ?thesis by (cases ports) auto
  next
    case (Inr p)
    show ?thesis
    proof (cases "parsePorts flds")
      case (Inl err)
      with Inr Cons.IH show ?thesis by (cases ports) auto
    next
      case inner: (Inr ps)
      with Inr Cons.IH [of ps] Cons.IH show ?thesis by (cases ports) auto
    qed
  qed
qed

lemma parsePorts_length: "parsePorts flds = Inr ports \<Longrightarrow> length ports = length flds"
  by (metis length_map parsePorts_Inr_iff)

lemma applySetters_fails:
  "s \<in> set setters \<Longrightarrow> (\<And>g. \<exists>err. s g = Inl err) \<Longrightarrow> \<exists>err. applySetters setters f = Inl err"
proof (induction setters arbitrary: f)
  case Nil
  then show ?case by simp
next
  case (Cons t setters)
  show ?case
  proof (cases "t f")
    case (Inl err)
    then show ?thesis by simp
  next
    case (Inr f')
    with Cons.prems(2) [of f] have "t \<noteq> s" by auto
    with Cons.prems(1) have "s \<in> set setters" by auto
    from Cons.IH [OF this Cons.prems(2)] Inr show ?thesis by simp
  qed
qed

lemma portInList_iff: "portInList port ps \<longleftrightarrow> port \<in> set ps"
  by (induction ps) auto

lemma AllowedPortsFromCSV_fails:
  assumes "\<exists>fld \<in> set (Split csv CHR '',''). \<exists>err. Atoi fld = Inl err"
  shows "\<exists>err. AllowedPortsFromCSV csv g = Inl err"
proof -
  from assms obtain err where "parsePorts (Split csv CHR '','') = Inl err"
    using parsePorts_fails_iff by blast
  then show ?thesis by (simp add: AllowedPortsFromCSV_def)
qed

text \<open>Values of the library functions used as examples below.\<close>

lemma Split_443_x: "Split ''443,x'' CHR '','' = [''443'', ''x'']"
  by (simp add: Split.simps)

lemma Split_443_8443: "Split ''443,8443'' CHR '','' = [''443'', ''8443'']"
  by (simp add: Split.simps)

lemma Atoi_443: "Atoi ''443'' = Inr 443"
  by (simp add: Atoi_def isDigit_def intSize_def)

lemma Atoi_8443: "Atoi ''8443'' = Inr 8443"
  by (simp add: Atoi_def isDigit_def intSize_def)

lemma Atoi_80: "Atoi ''80'' = Inr 80"
  by (simp add: Atoi_def isDigit_def intSize_def)

lemma Atoi_x: "Atoi ''x'' = Inl (NumError ''x'')"
  by (simp add: Atoi_def isDigit_def intSize_def)

lemma Atoi_abc: "Atoi ''abc'' = Inl (NumError ''abc'')"
  by (simp add: Atoi_def isDigit_def intSize_def)

lemma SplitHostPort_443: "SplitHostPort ''example.com:443'' = Inr (''example.com'', ''443'')"
  by (simp add: SplitHostPort_def LastIndexByte_def)

lemma SplitHostPort_80: "SplitHostPort ''example.com:80'' = Inr (''example.com'', ''80'')"
  by (simp add: SplitHostPort_def LastIndexByte_def)

lemma SplitHostPort_abc: "SplitHostPort ''example.com:abc'' = Inr (''example.com'', ''abc'')"
  by (simp add: SplitHostPort_def LastIndexByte_def)

lemma SplitHostPort_none:
  "SplitHostPort ''example.com'' = Inl (AddrError MissingPort ''example.com'')"
  by (simp add: SplitHostPort_def LastIndexByte_def)

subsection \<open>Facts about serving\<close>

lemma portAllowed_authorized_events:
  "snd (portAllowed f req) \<Longrightarrow>
     fst (portAllowed f req) = [] \<or>
     fst (portAllowed f req) = [Log Trace ''Checking CONNECT tunnel to %s against allowed ports %v'']"
  by (auto simp add: portAllowed_def Let_def split: sum.splits if_splits)

lemma SplitHostPort_no_colon:
  assumes "CHR '':'' \<notin> set hostport"
  shows "SplitHostPort hostport = Inl (AddrError MissingPort hostport)"
proof -
  have "IndexByte s c = None" if "c \<notin> set s" for s c
    using that by (induction s) auto
  from this [of "CHR '':''" "rev hostport"] assms
  show ?thesis by (simp add: SplitHostPort_def LastIndexByte_def)
qed

lemma intercept_starts:
  "\<exists>rest. fst (intercept f e req) = RespondOK # rest"
  by (simp add: intercept_def split: option.splits sum.splits)

lemma ServeHTTP_authorized:
  assumes "Method req = ''CONNECT''" and "portAllowed f req = (pa, True)"
  shows "fst (ServeHTTP f e req) =
           traceRequest e req @ [OpsEnter ''proxy_https''] @ pa @ fst (intercept f e req) @
             (case session_of (snd (intercept f e req)) of None \<Rightarrow> [OpExit] | Some ss \<Rightarrow> [])"
    and "snd (ServeHTTP f e req) =
           (case snd (intercept f e req) of Returned err \<Rightarrow> Returned None | out \<Rightarrow> out)"
  using assms
  by (auto simp add: ServeHTTP_def split: prod.splits outcome.splits)

lemma ServeHTTP_refused:
  assumes "Method req = ''CONNECT''" and "portAllowed f req = (pa, False)"
  shows "ServeHTTP f e req =
           (traceRequest e req @ [OpsEnter ''proxy_https''] @ pa @ [OpExit], Returned None)"
  using assms by (simp add: ServeHTTP_def)



lemma quiet_authorized:
  "snd (portAllowed f req) \<Longrightarrow>
     \<not> list_ex isErrorResponse (fst (portAllowed f req)) \<and>
     \<not> list_ex isAnyClose (fst (portAllowed f req))"
  using portAllowed_authorized_events [of f req] by auto

lemma quiet_traceRequest:
  "\<not> list_ex isErrorResponse (traceRequest e req) \<and> \<not> list_ex isAnyClose (traceRequest e req)"
  by (simp add: traceRequest_def)

lemma allow_any_iff:
  "(\<forall>req :: Request. snd (portAllowed g req)) \<longleftrightarrow> allowedPorts g = []"
proof
  assume a: "\<forall>req :: Request. snd (portAllowed g req)"
  show "allowedPorts g = []"
  proof (rule ccontr)
    assume "allowedPorts g \<noteq> []"
    then have "\<not> snd (portAllowed g \<lparr>Method = ''CONNECT'', Host = ''example.com''\<rparr>)"
      by (simp add: portAllowed_def SplitHostPort_none)
    with a show False by blast
  qed
next
  assume "allowedPorts g = []"
  then show "\<forall>req :: Request. snd (portAllowed g req)"
    by (simp add: portAllowed_def)
qed

subsection \<open>Construction\<close>

text \<open>
  C9. A call of \<^verbatim>\<open>New\<close> with a nil next handler fails: it returns an error and no
  handler, whatever option setters it is given.
\<close>

theorem New_nil_next:
  "New None setters = Inl (ErrorString ''Next handler is not defined (nil)'')"
  by (simp add: New_def)

text \<open>
  C8. For a comma-separated allowed-ports string \<open>csv\<close>: if some entry of the string is
  not numeric (\<^verbatim>\<open>Atoi\<close> rejects it), every construction that uses the option
  \<^verbatim>\<open>AllowedPortsFromCSV(csv)\<close> fails, returning an error and no handler; if every
  entry is numeric, construction with that option succeeds and the allowed ports of the
  handler are exactly the parsed integers, entry by entry. An entry is numeric when it is
  an optional sign followed by decimal digits whose value fits an \<^verbatim>\<open>int\<close>.
\<close>

theorem New_csv_ports:
  "(AllowedPortsFromCSV csv \<in> set setters \<and>
      (\<exists>fld \<in> set (Split csv CHR '',''). \<exists>err. Atoi fld = Inl err)
      \<longrightarrow> (\<exists>err. New nxt setters = Inl err))
   \<and> ((\<forall>fld \<in> set (Split csv CHR '',''). \<exists>p. Atoi fld = Inr p)
      \<longrightarrow> (\<exists>ports. New (Some n) [AllowedPortsFromCSV csv] =
                       Inr \<lparr>next_handler = n, idleTimeout = 0, allowedPorts = ports\<rparr>
                   \<and> map Atoi (Split csv CHR '','') = map Inr ports))"
proof (intro conjI impI)
  assume a: "AllowedPortsFromCSV csv \<in> set setters \<and>
      (\<exists>fld \<in> set (Split csv CHR '',''). \<exists>err. Atoi fld = Inl err)"
  show "\<exists>err. New nxt setters = Inl err"
  proof (cases nxt)
    case None
    then show ?thesis by (simp add: New_def)
  next
    case (Some m)
    have "\<exists>err. applySetters setters \<lparr>next_handler = m, idleTimeout = 0, allowedPorts = []\<rparr> = Inl err"
      using a AllowedPortsFromCSV_fails [of csv] by (intro applySetters_fails [of "AllowedPortsFromCSV csv"]) auto
    with Some show ?thesis by (simp add: New_def)
  qed
next
  assume a: "\<forall>fld \<in> set (Split csv CHR '',''). \<exists>p. Atoi fld = Inr p"
  have "\<not> (\<exists>err. parsePorts (Split csv CHR '','') = Inl err)"
    using a parsePorts_fails_iff [of "Split csv CHR '',''"] by auto
  then obtain ports where p: "parsePorts (Split csv CHR '','') = Inr ports"
    by (cases "parsePorts (Split csv CHR '','')") auto
  then have "map Atoi (Split csv CHR '','') = map Inr ports"
    by (simp add: parsePorts_Inr_iff)
  with p show "\<exists>ports. New (Some n) [AllowedPortsFromCSV csv] =
                       Inr \<lparr>next_handler = n, idleTimeout = 0, allowedPorts = ports\<rparr>
                   \<and> map Atoi (Split csv CHR '','') = map Inr ports"
    by (simp add: New_def AllowedPortsFromCSV_def)
qed

theorem New_csv_ports_witness:
  "(\<exists>err. New (Some (7::nat)) [IdleTimeoutSetter 5, AllowedPortsFromCSV ''443,x''] = Inl err)
   \<and> New (Some (7::nat)) [AllowedPortsFromCSV ''443,8443''] =
       Inr \<lparr>next_handler = 7, idleTimeout = 0, allowedPorts = [443, 8443]\<rparr>"
proof
  show "\<exists>err. New (Some (7::nat)) [IdleTimeoutSetter 5, AllowedPortsFromCSV ''443,x''] = Inl err"
    using New_csv_ports [of "''443,x''" "[IdleTimeoutSetter 5, AllowedPortsFromCSV ''443,x'']" "Some (7::nat)"]
    by (simp add: Split_443_x Atoi_x)
next
  from New_csv_ports [of "''443,8443''" "[]" None "7::nat"]
  obtain ports where "New (Some (7::nat)) [AllowedPortsFromCSV ''443,8443''] =
                       Inr \<lparr>next_handler = 7, idleTimeout = 0, allowedPorts = ports\<rparr>"
      and "map Atoi (Split ''443,8443'' CHR '','') = map Inr ports"
    by (auto simp add: Split_443_8443 Atoi_443 Atoi_8443)
  then show "New (Some (7::nat)) [AllowedPortsFromCSV ''443,8443''] =
       Inr \<lparr>next_handler = 7, idleTimeout = 0, allowedPorts = [443, 8443]\<rparr>"
    by (auto simp add: Split_443_8443 Atoi_443 Atoi_8443)
qed

text \<open>
  C10. Allowed ports given as the empty comma-separated string fail construction: the
  empty string splits into one empty entry, which \<^verbatim>\<open>Atoi\<close> rejects. More generally a
  handler built with \<^verbatim>\<open>AllowedPortsFromCSV\<close> never has an empty list of allowed ports,
  and a handler authorizes every request exactly when its list is empty; the list is empty
  when no allowed-ports option is given, and with \<^verbatim>\<open>AllowedPorts(ps)\<close> it is \<open>ps\<close>,
  so empty exactly when \<open>ps\<close> is.
\<close>

theorem empty_csv_fails_construction:
  "Split '''' CHR '','' = ['''']
   \<and> Atoi '''' = Inl (NumError '''')
   \<and> New (Some n) [AllowedPortsFromCSV ''''] = Inl (NumError '''')
   \<and> (\<forall>f. New (Some n) [AllowedPortsFromCSV csv] = Inr f \<longrightarrow> allowedPorts f \<noteq> [])
   \<and> ((\<forall>req :: Request. snd (portAllowed g req)) \<longleftrightarrow> allowedPorts g = [])
   \<and> New (Some n) [] = Inr \<lparr>next_handler = n, idleTimeout = 0, allowedPorts = []\<rparr>
   \<and> New (Some n) [AllowedPorts ps] = Inr \<lparr>next_handler = n, idleTimeout = 0, allowedPorts = ps\<rparr>"
proof (intro conjI allI impI)
  show "Split '''' CHR '','' = ['''']" by (rule Split_empty)
  show "Atoi '''' = Inl (NumError '''')" by (rule Atoi_empty)
  show "New (Some n) [AllowedPortsFromCSV ''''] = Inl (NumError '''')"
    by (simp add: New_def AllowedPortsFromCSV_def Split_empty Atoi_empty)
  show "(\<forall>req :: Request. snd (portAllowed g req)) \<longleftrightarrow> allowedPorts g = []"
    by (rule allow_any_iff)
  show "New (Some n) [] = Inr \<lparr>next_handler = n, idleTimeout = 0, allowedPorts = []\<rparr>"
    by (simp add: New_def)
  show "New (Some n) [AllowedPorts ps] =
          Inr \<lparr>next_handler = n, idleTimeout = 0, allowedPorts = ps\<rparr>"
    by (simp add: New_def AllowedPorts_def)
next
  fix f
  assume a: "New (Some n) [AllowedPortsFromCSV csv] = Inr f"
  then obtain ports where p: "parsePorts (Split csv CHR '','') = Inr ports"
    and f: "allowedPorts f = ports"
    by (auto simp add: New_def AllowedPortsFromCSV_def split: sum.splits)
  from parsePorts_length [OF p] Split_nonempty [of csv "CHR '',''"] f
  show "allowedPorts f \<noteq> []" by auto
qed

theorem empty_csv_fails_construction_witness:
  "New (Some (7::nat)) [AllowedPortsFromCSV ''443,8443''] =
     Inr \<lparr>next_handler = 7, idleTimeout = 0, allowedPorts = [443, 8443]\<rparr>
   \<and> allowedPorts \<lparr>next_handler = (7::nat), idleTimeout = 0, allowedPorts = [443, 8443]\<rparr> \<noteq> []
   \<and> New (Some (7::nat)) [AllowedPortsFromCSV ''''] = Inl (NumError '''')"
proof -
  note t = empty_csv_fails_construction [of "7::nat" "''443,8443''"
      "\<lparr>next_handler = (7::nat), idleTimeout = 0, allowedPorts = []\<rparr>" "[]"]
  have f: "New (Some (7::nat)) [AllowedPortsFromCSV ''443,8443''] =
     Inr \<lparr>next_handler = 7, idleTimeout = 0, allowedPorts = [443, 8443]\<rparr>"
    by (simp add: New_def AllowedPortsFromCSV_def Split_443_8443 Atoi_443 Atoi_8443)
  from t f have "allowedPorts \<lparr>next_handler = (7::nat), idleTimeout = 0,
      allowedPorts = [443, 8443]\<rparr> \<noteq> []"
    by blast
  moreover from t have "New (Some (7::nat)) [AllowedPortsFromCSV ''''] = Inl (NumError '''')"
    by blast
  ultimately show ?thesis using f by blast
qed

subsection \<open>Serving\<close>

text \<open>
  C5. For a request whose method is not CONNECT the handler makes one call, to the next
  handler with the request as it received it, and returns: no hijack, no dial, no relay,
  nothing written or logged.
\<close>

theorem non_CONNECT_forwarded:
  "Method req \<noteq> ''CONNECT'' \<Longrightarrow>
     ServeHTTP f e req = ([NextServeHTTP (next_handler f) req], Returned None)"
  by (simp add: ServeHTTP_def)

theorem non_CONNECT_forwarded_witness:
  "ServeHTTP \<lparr>next_handler = (7::nat), idleTimeout = 0, allowedPorts = [443]\<rparr>
       \<lparr>traceEnabled = True, hijacker = None, dial = Inr 2\<rparr>
       \<lparr>Method = ''GET'', Host = ''example.com:80''\<rparr>
     = ([NextServeHTTP 7 \<lparr>Method = ''GET'', Host = ''example.com:80''\<rparr>], Returned None)"
  using non_CONNECT_forwarded [of "\<lparr>Method = ''GET'', Host = ''example.com:80''\<rparr>"
      "\<lparr>next_handler = (7::nat), idleTimeout = 0, allowedPorts = [443]\<rparr>"
      "\<lparr>traceEnabled = True, hijacker = None, dial = Inr 2\<rparr>"]
  by simp

text \<open>
  C4. With an empty list of allowed ports, authorization succeeds for every request,
  whatever its host is and whether or not it parses as host:port, and writes nothing; a
  CONNECT request then goes on to \<^verbatim>\<open>intercept\<close>, whose first call is the success
  response.
\<close>

theorem empty_list_allows:
  "allowedPorts f = [] \<Longrightarrow>
     portAllowed f req = ([], True) \<and>
     (Method req = ''CONNECT'' \<longrightarrow>
        (\<exists>rest. fst (ServeHTTP f e req) =
                  traceRequest e req @ [OpsEnter ''proxy_https'', RespondOK] @ rest))"
proof -
  assume a: "allowedPorts f = []"
  have pa: "portAllowed f req = ([], True)" for req :: "'b Request_scheme"
    using a by (simp add: portAllowed_def)
  have "\<exists>rest. fst (ServeHTTP f e req) =
                  traceRequest e req @ [OpsEnter ''proxy_https'', RespondOK] @ rest"
    if m: "Method req = ''CONNECT''"
  proof -
    obtain rest where r: "fst (intercept f e req) = RespondOK # rest"
      using intercept_starts by blast
    show ?thesis
      using ServeHTTP_authorized(1) [OF m pa, of e] r by simp
  qed
  with pa show ?thesis by blast
qed

theorem empty_list_allows_witness:
  "portAllowed \<lparr>next_handler = (7::nat), idleTimeout = 0, allowedPorts = []\<rparr>
       \<lparr>Method = ''CONNECT'', Host = ''example.com''\<rparr> = ([], True)
   \<and> (\<exists>rest. fst (ServeHTTP \<lparr>next_handler = (7::nat), idleTimeout = 0, allowedPorts = []\<rparr>
                 \<lparr>traceEnabled = False, hijacker = Some (Inr 1), dial = Inr 2\<rparr>
                 \<lparr>Method = ''CONNECT'', Host = ''example.com''\<rparr>) =
          [OpsEnter ''proxy_https'', RespondOK] @ rest)"
  using empty_list_allows [of "\<lparr>next_handler = (7::nat), idleTimeout = 0, allowedPorts = []\<rparr>"
      "\<lparr>Method = ''CONNECT'', Host = ''example.com''\<rparr>"
      "\<lparr>traceEnabled = False, hijacker = Some (Inr 1), dial = Inr 2\<rparr>"]
  by (simp add: traceRequest_def)

text \<open>
  C2. For a CONNECT request handled with a non-empty list of allowed ports whose host
  parses as host:port with a numeric port, authorization succeeds if and only if the port
  is a member of the list (so neither the order of the list nor duplicates matter). When
  it is a member, the handler goes on to the success response; when it is not, the handler
  writes status 403 with the body "Port not allowed" and returns: no hijack, no dial, no
  relay.
\<close>

theorem listed_port_allowed:
  assumes "Method req = ''CONNECT''" and "allowedPorts f \<noteq> []"
    and "SplitHostPort (Host req) = Inr (h, p)" and "Atoi p = Inr port"
  shows "(snd (portAllowed f req) \<longleftrightarrow> port \<in> set (allowedPorts f))
    \<and> (port \<in> set (allowedPorts f) \<longrightarrow>
         (\<exists>rest. fst (ServeHTTP f e req) =
            traceRequest e req @
            [OpsEnter ''proxy_https'',
             Log Trace ''Checking CONNECT tunnel to %s against allowed ports %v'',
             RespondOK] @ rest))
    \<and> (port \<notin> set (allowedPorts f) \<longrightarrow>
         ServeHTTP f e req =
           (traceRequest e req @
            [OpsEnter ''proxy_https'',
             Log Trace ''Checking CONNECT tunnel to %s against allowed ports %v'',
             OpErrorf ''Respond error to CONNECT request to %s: %d %v'',
             Log Error ''%v'',
             WriteHeader 403,
             Fprintf ''Port not allowed'',
             OpExit], Returned None))"
proof (intro conjI impI)
  show "snd (portAllowed f req) \<longleftrightarrow> port \<in> set (allowedPorts f)"
    using assms by (simp add: portAllowed_def portInList_iff Let_def)
next
  assume "port \<in> set (allowedPorts f)"
  then have pa: "portAllowed f req =
      ([Log Trace ''Checking CONNECT tunnel to %s against allowed ports %v''], True)"
    using assms by (simp add: portAllowed_def portInList_iff Let_def)
  obtain rest where r: "fst (intercept f e req) = RespondOK # rest"
    using intercept_starts by blast
  show "\<exists>rest. fst (ServeHTTP f e req) =
            traceRequest e req @
            [OpsEnter ''proxy_https'',
             Log Trace ''Checking CONNECT tunnel to %s against allowed ports %v'',
             RespondOK] @ rest"
    using ServeHTTP_authorized(1) [OF assms(1) pa, of e] r by simp
next
  assume "port \<notin> set (allowedPorts f)"
  then have pa: "portAllowed f req =
      ([Log Trace ''Checking CONNECT tunnel to %s against allowed ports %v''] @
       ServeError req StatusForbidden ''Port not allowed'', False)"
    using assms by (simp add: portAllowed_def portInList_iff Let_def)
  show "ServeHTTP f e req =
           (traceRequest e req @
            [OpsEnter ''proxy_https'',
             Log Trace ''Checking CONNECT tunnel to %s against allowed ports %v'',
             OpErrorf ''Respond error to CONNECT request to %s: %d %v'',
             Log Error ''%v'',
             WriteHeader 403,
             Fprintf ''Port not allowed'',
             OpExit], Returned None)"
    using ServeHTTP_refused [OF assms(1) pa, of e]
    by (simp add: ServeError_def StatusForbidden_def)
qed

theorem listed_port_allowed_witness:
  "snd (portAllowed \<lparr>next_handler = (7::nat), idleTimeout = 0, allowedPorts = [443, 8443]\<rparr>
          \<lparr>Method = ''CONNECT'', Host = ''example.com:443''\<rparr>)
   \<and> (\<exists>rest. fst (ServeHTTP \<lparr>next_handler = (7::nat), idleTimeout = 0, allowedPorts = [443, 8443]\<rparr>
                 \<lparr>traceEnabled = False, hijacker = Some (Inr 1), dial = Inr 2\<rparr>
                 \<lparr>Method = ''CONNECT'', Host = ''example.com:443''\<rparr>) =
          [OpsEnter ''proxy_https'',
           Log Trace ''Checking CONNECT tunnel to %s against allowed ports %v'',
           RespondOK] @ rest)
   \<and> \<not> snd (portAllowed \<lparr>next_handler = (7::nat), idleTimeout = 0, allowedPorts = [443, 8443]\<rparr>
          \<lparr>Method = ''CONNECT'', Host = ''example.com:80''\<rparr>)
   \<and> ServeHTTP \<lparr>next_handler = (7::nat), idleTimeout = 0, allowedPorts = [443, 8443]\<rparr>
        \<lparr>traceEnabled = False, hijacker = Some (Inr 1), dial = Inr 2\<rparr>
        \<lparr>Method = ''CONNECT'', Host = ''example.com:80''\<rparr> =
       ([OpsEnter ''proxy_https'',
         Log Trace ''Checking CONNECT tunnel to %s against allowed ports %v'',
         OpErrorf ''Respond error to CONNECT request to %s: %d %v'',
         Log Error ''%v'',
         WriteHeader 403,
         Fprintf ''Port not allowed'',
         OpExit], Returned None)"
  using listed_port_allowed [of "\<lparr>Method = ''CONNECT'', Host = ''example.com:443''\<rparr>"
      "\<lparr>next_handler = (7::nat), idleTimeout = 0, allowedPorts = [443, 8443]\<rparr>"
      "''example.com''" "''443''" 443
      "\<lparr>traceEnabled = False, hijacker = Some (Inr 1), dial = Inr 2\<rparr>"]
    listed_port_allowed [of "\<lparr>Method = ''CONNECT'', Host = ''example.com:80''\<rparr>"
      "\<lparr>next_handler = (7::nat), idleTimeout = 0, allowedPorts = [443, 8443]\<rparr>"
      "''example.com''" "''80''" 80
      "\<lparr>traceEnabled = False, hijacker = Some (Inr 1), dial = Inr 2\<rparr>"]
  by (simp add: SplitHostPort_443 SplitHostPort_80 Atoi_443 Atoi_80 traceRequest_def)

text \<open>
  C3, amended. For a CONNECT request handled with a non-empty list of allowed ports: if
  the host does not split into host and port, the handler writes status 400 with the body
  "No port field in Request-URI / Host header"; if it splits but the port is not numeric,
  the handler writes status 400 with the body "Invalid port". In both cases it returns
  with no hijack, no dial and no relay. A host without a colon does not split
  (\<open>SplitHostPort_no_colon\<close>).
\<close>

theorem unparsable_target_bad_request:
  assumes "Method req = ''CONNECT''" and "allowedPorts f \<noteq> []"
  shows "((\<exists>err. SplitHostPort (Host req) = Inl err) \<longrightarrow>
           ServeHTTP f e req =
             (traceRequest e req @
              [OpsEnter ''proxy_https'',
               Log Trace ''Checking CONNECT tunnel to %s against allowed ports %v'',
               OpErrorf ''Respond error to CONNECT request to %s: %d %v'',
               Log Error ''%v'',
               WriteHeader 400,
               Fprintf ''No port field in Request-URI / Host header'',
               OpExit], Returned None))
    \<and> ((\<exists>h p err. SplitHostPort (Host req) = Inr (h, p) \<and> Atoi p = Inl err) \<longrightarrow>
           ServeHTTP f e req =
             (traceRequest e req @
              [OpsEnter ''proxy_https'',
               Log Trace ''Checking CONNECT tunnel to %s against allowed ports %v'',
               OpErrorf ''Respond error to CONNECT request to %s: %d %v'',
               Log Error ''%v'',
               WriteHeader 400,
               Fprintf ''Invalid port'',
               OpExit], Returned None))"
proof (intro conjI impI)
  assume "\<exists>err. SplitHostPort (Host req) = Inl err"
  then have pa: "portAllowed f req =
      ([Log Trace ''Checking CONNECT tunnel to %s against allowed ports %v''] @
       ServeError req StatusBadRequest ''No port field in Request-URI / Host header'', False)"
    using assms by (auto simp add: portAllowed_def Let_def)
  show "ServeHTTP f e req =
             (traceRequest e req @
              [OpsEnter ''proxy_https'',
               Log Trace ''Checking CONNECT tunnel to %s against allowed ports %v'',
               OpErrorf ''Respond error to CONNECT request to %s: %d %v'',
               Log Error ''%v'',
               WriteHeader 400,
               Fprintf ''No port field in Request-URI / Host header'',
               OpExit], Returned None)"
    using ServeHTTP_refused [OF assms(1) pa, of e]
    by (simp add: ServeError_def StatusBadRequest_def)
next
  assume "\<exists>h p err. SplitHostPort (Host req) = Inr (h, p) \<and> Atoi p = Inl err"
  then have pa: "portAllowed f req =
      ([Log Trace ''Checking CONNECT tunnel to %s against allowed ports %v''] @
       ServeError req StatusBadRequest ''Invalid port'', False)"
    using assms by (auto simp add: portAllowed_def Let_def)
  show "ServeHTTP f e req =
             (traceRequest e req @
              [OpsEnter ''proxy_https'',
               Log Trace ''Checking CONNECT tunnel to %s against allowed ports %v'',
               OpErrorf ''Respond error to CONNECT request to %s: %d %v'',
               Log Error ''%v'',
               WriteHeader 400,
               Fprintf ''Invalid port'',
               OpExit], Returned None)"
    using ServeHTTP_refused [OF assms(1) pa, of e]
    by (simp add: ServeError_def StatusBadRequest_def)
qed

theorem unparsable_target_bad_request_witness:
  "ServeHTTP \<lparr>next_handler = (7::nat), idleTimeout = 0, allowedPorts = [443, 8443]\<rparr>
        \<lparr>traceEnabled = False, hijacker = Some (Inr 1), dial = Inr 2\<rparr>
        \<lparr>Method = ''CONNECT'', Host = ''example.com''\<rparr> =
       ([OpsEnter ''proxy_https'',
         Log Trace ''Checking CONNECT tunnel to %s against allowed ports %v'',
         OpErrorf ''Respond error to CONNECT request to %s: %d %v'',
         Log Error ''%v'',
         WriteHeader 400,
         Fprintf ''No port field in Request-URI / Host header'',
         OpExit], Returned None)
   \<and> ServeHTTP \<lparr>next_handler = (7::nat), idleTimeout = 0, allowedPorts = [443, 8443]\<rparr>
        \<lparr>traceEnabled = False, hijacker = Some (Inr 1), dial = Inr 2\<rparr>
        \<lparr>Method = ''CONNECT'', Host = ''example.com:abc''\<rparr> =
       ([OpsEnter ''proxy_https'',
         Log Trace ''Checking CONNECT tunnel to %s against allowed ports %v'',
         OpErrorf ''Respond error to CONNECT request to %s: %d %v'',
         Log Error ''%v'',
         WriteHeader 400,
         Fprintf ''Invalid port'',
         OpExit], Returned None)"
  using unparsable_target_bad_request [of "\<lparr>Method = ''CONNECT'', Host = ''example.com''\<rparr>"
      "\<lparr>next_handler = (7::nat), idleTimeout = 0, allowedPorts = [443, 8443]\<rparr>"
      "\<lparr>traceEnabled = False, hijacker = Some (Inr 1), dial = Inr 2\<rparr>"]
    unparsable_target_bad_request [of "\<lparr>Method = ''CONNECT'', Host = ''example.com:abc''\<rparr>"
      "\<lparr>next_handler = (7::nat), idleTimeout = 0, allowedPorts = [443, 8443]\<rparr>"
      "\<lparr>traceEnabled = False, hijacker = Some (Inr 1), dial = Inr 2\<rparr>"]
  by (simp add: SplitHostPort_none SplitHostPort_abc Atoi_abc traceRequest_def)

text \<open>
  C3 as stated, for every CONNECT request, fails when the list of allowed ports is empty:
  the host is not looked at, the success response is written and the connection hijacked.
  Here the host has no port, and the dial fails for that reason.
\<close>

theorem unparsable_target_empty_list_counterexample:
  "SplitHostPort ''example.com'' = Inl (AddrError MissingPort ''example.com'')
   \<and> ServeHTTP \<lparr>next_handler = (7::nat), idleTimeout = 0, allowedPorts = []\<rparr>
        \<lparr>traceEnabled = False, hijacker = Some (Inr 1),
         dial = Inl (AddrError MissingPort ''example.com'')\<rparr>
        \<lparr>Method = ''CONNECT'', Host = ''example.com''\<rparr> =
       ([OpsEnter ''proxy_https'',
         RespondOK,
         Hijack,
         DialTimeout ''tcp'' ''example.com'' 10000000000,
         OpErrorf ''Unable to dial %v: %v'',
         OpExit], Returned None)"
  by (simp add: SplitHostPort_none ServeHTTP_def portAllowed_def intercept_def
      traceRequest_def Second_def)



text \<open>
  C7. For an authorized CONNECT request whose hijack succeeds and whose dial, given a
  timeout of ten seconds, fails, the handler logs the error through \<^verbatim>\<open>op.Errorf\<close> and
  returns: it writes no error response, closes no connection (the hijacked client
  connection is left open) and does not enter the relay.
\<close>

theorem dial_failure_abandons:
  assumes "Method req = ''CONNECT''" and "snd (portAllowed f req)"
    and "hijacker e = Some (Inr c)" and "dial e = Inl err"
  shows "ServeHTTP f e req =
           (traceRequest e req @ [OpsEnter ''proxy_https''] @ fst (portAllowed f req) @
            [RespondOK, Hijack, DialTimeout ''tcp'' (Host req) (10 * Second),
             OpErrorf ''Unable to dial %v: %v'', OpExit], Returned None)
    \<and> \<not> list_ex isErrorResponse (fst (ServeHTTP f e req))
    \<and> \<not> list_ex isAnyClose (fst (ServeHTTP f e req))
    \<and> session_of (snd (ServeHTTP f e req)) = None"
proof -
  have pa: "portAllowed f req = (fst (portAllowed f req), True)"
    using assms(2) by (cases "portAllowed f req") simp
  have i: "intercept f e req =
      ([RespondOK, Hijack, DialTimeout ''tcp'' (Host req) (10 * Second),
        OpErrorf ''Unable to dial %v: %v''], Returned (Some err))"
    using assms(3,4) by (simp add: intercept_def)
  have eq: "ServeHTTP f e req =
           (traceRequest e req @ [OpsEnter ''proxy_https''] @ fst (portAllowed f req) @
            [RespondOK, Hijack, DialTimeout ''tcp'' (Host req) (10 * Second),
             OpErrorf ''Unable to dial %v: %v'', OpExit], Returned None)"
    using ServeHTTP_authorized [OF assms(1) pa, of e] i
    by (simp add: prod_eq_iff)
  moreover have "\<not> list_ex isErrorResponse (fst (ServeHTTP f e req))"
    using quiet_authorized [OF assms(2)] quiet_traceRequest [of e req]
    by (auto simp add: eq list_ex_iff)
  moreover have "\<not> list_ex isAnyClose (fst (ServeHTTP f e req))"
    using quiet_authorized [OF assms(2)] quiet_traceRequest [of e req]
    by (auto simp add: eq list_ex_iff)
  moreover have "session_of (snd (ServeHTTP f e req)) = None"
    by (simp add: eq)
  ultimately show ?thesis by blast
qed

theorem dial_failure_abandons_witness:
  "ServeHTTP \<lparr>next_handler = (7::nat), idleTimeout = 0, allowedPorts = [443, 8443]\<rparr>
        \<lparr>traceEnabled = False, hijacker = Some (Inr 1), dial = Inl (NetError ''refused'')\<rparr>
        \<lparr>Method = ''CONNECT'', Host = ''example.com:443''\<rparr> =
       ([OpsEnter ''proxy_https'',
         Log Trace ''Checking CONNECT tunnel to %s against allowed ports %v'',
         RespondOK, Hijack, DialTimeout ''tcp'' ''example.com:443'' 10000000000,
         OpErrorf ''Unable to dial %v: %v'', OpExit], Returned None)"
proof -
  have pa: "portAllowed \<lparr>next_handler = (7::nat), idleTimeout = 0, allowedPorts = [443, 8443]\<rparr>
          \<lparr>Method = ''CONNECT'', Host = ''example.com:443''\<rparr> =
      ([Log Trace ''Checking CONNECT tunnel to %s against allowed ports %v''], True)"
    by (simp add: portAllowed_def SplitHostPort_443 Atoi_443)
  show ?thesis
    using dial_failure_abandons [of "\<lparr>Method = ''CONNECT'', Host = ''example.com:443''\<rparr>"
      "\<lparr>next_handler = (7::nat), idleTimeout = 0, allowedPorts = [443, 8443]\<rparr>"
      "\<lparr>traceEnabled = False, hijacker = Some (Inr 1), dial = Inl (NetError ''refused'')\<rparr>"
      1 "NetError ''refused''"]
    by (simp add: pa traceRequest_def Second_def)
qed

subsection \<open>The relay\<close>

lemma closes_append [simp]: "closes c (xs @ ys) = closes c xs + closes c ys"
  by (simp add: closes_def)

lemma closes_Nil [simp]: "closes c [] = 0"
  by (simp add: closes_def)

lemma closes_Cons [simp]: "closes c (ev # evs) = (if isClose c ev then 1 else 0) + closes c evs"
  by (simp add: closes_def)

lemma closes_zero_iff: "closes c evs = 0 \<longleftrightarrow> (\<forall>r. Close c r \<notin> set evs)"
proof (induction evs)
  case Nil
  show ?case by simp
next
  case (Cons ev evs)
  show ?case
  proof (cases ev)
    case (Close x r)
    with Cons show ?thesis by auto
  qed (use Cons in auto)
qed

lemma snoc_split:
  "xs @ [e] = pre @ y # post \<longleftrightarrow>
     (post = [] \<and> pre = xs \<and> y = e) \<or> (\<exists>post'. post = post' @ [e] \<and> xs = pre @ y # post')"
  by (cases post rule: rev_cases) auto

lemma teardown_last_Nil: "teardown_last ss []"
  by (simp add: teardown_last_def)

lemma teardown_last_snoc_other:
  assumes "teardown_last ss evs"
    and "\<not> isClose (clientConn ss) e" and "\<not> isClose (connOut ss) e"
    and "isIO e \<Longrightarrow> closes (clientConn ss) evs = 0 \<and> closes (connOut ss) evs = 0"
  shows "teardown_last ss (evs @ [e])"
  unfolding teardown_last_def
proof (intro allI impI)
  fix pre x r post
  assume a: "evs @ [e] = pre @ Close x r # post \<and> (x = clientConn ss \<or> x = connOut ss)"
  from a assms(2,3) obtain post' where p: "post = post' @ [e]" and q: "evs = pre @ Close x r # post'"
    by (auto simp add: snoc_split)
  from q a have "closes (clientConn ss) evs \<noteq> 0 \<or> closes (connOut ss) evs \<noteq> 0"
    by (auto simp add: closes_zero_iff)
  with assms(4) have "\<not> isIO e" by blast
  moreover from assms(1) q a have "WgDone \<in> set pre \<and>
          (\<exists>r'. CopyBuffer (connOut ss) (clientConn ss) r' \<in> set pre) \<and>
          (\<exists>r'. CopyBuffer (clientConn ss) (connOut ss) r' \<in> set pre) \<and>
          \<not> list_ex isIO post'"
    unfolding teardown_last_def by blast
  ultimately show "WgDone \<in> set pre \<and>
          (\<exists>r'. CopyBuffer (connOut ss) (clientConn ss) r' \<in> set pre) \<and>
          (\<exists>r'. CopyBuffer (clientConn ss) (connOut ss) r' \<in> set pre) \<and>
          \<not> list_ex isIO post"
    using p by (simp add: list_ex_iff)
qed

lemma teardown_last_snoc_close:
  assumes "teardown_last ss evs"
    and "WgDone \<in> set evs"
    and "\<exists>r'. CopyBuffer (connOut ss) (clientConn ss) r' \<in> set evs"
    and "\<exists>r'. CopyBuffer (clientConn ss) (connOut ss) r' \<in> set evs"
  shows "teardown_last ss (evs @ [Close y ry])"
  unfolding teardown_last_def
proof (intro allI impI)
  fix pre x r post
  assume a: "evs @ [Close y ry] = pre @ Close x r # post \<and> (x = clientConn ss \<or> x = connOut ss)"
  then consider "post = []" "pre = evs" 
    | post' where "post = post' @ [Close y ry]" "evs = pre @ Close x r # post'"
    by (auto simp add: snoc_split)
  then show "WgDone \<in> set pre \<and>
          (\<exists>r'. CopyBuffer (connOut ss) (clientConn ss) r' \<in> set pre) \<and>
          (\<exists>r'. CopyBuffer (clientConn ss) (connOut ss) r' \<in> set pre) \<and>
          \<not> list_ex isIO post"
  proof cases
    case 1
    with assms(2,3,4) show ?thesis by simp
  next
    case 2
    from assms(1) 2(2) a have "WgDone \<in> set pre \<and>
          (\<exists>r'. CopyBuffer (connOut ss) (clientConn ss) r' \<in> set pre) \<and>
          (\<exists>r'. CopyBuffer (clientConn ss) (connOut ss) r' \<in> set pre) \<and>
          \<not> list_ex isIO post'"
      unfolding teardown_last_def by blast
    with 2(1) show ?thesis by (simp add: list_ex_iff)
  qed
qed

lemma emit_simps [simp]:
  "mpc (emit evs s) = mpc s" "upc (emit evs s) = upc s"
  "readFinished (emit evs s) = readFinished s" "events (emit evs s) = events s @ evs"
  by (simp_all add: emit_def)

lemma relay_inv_init: "relay_inv ss relay_init"
  by (simp add: relay_inv_def relay_init_def teardown_last_Nil)

lemma step_main_inv:
  assumes "wf_session ss" and "relay_inv ss s" and "step_main ss r s = Some s'"
  shows "relay_inv ss s'"
proof -
  from assms(1) have d: "clientConn ss \<noteq> connOut ss" "connOut ss \<noteq> clientConn ss"
    by (auto simp add: wf_session_def)
  from assms(2) have t: "teardown_last ss (events s)"
    by (simp add: relay_inv_def)
  show ?thesis
  proof (cases "mpc s")
    case MAdd
    with assms(3) have s': "s' = emit [WgAdd 1] (s\<lparr>mpc := MGo, readFinished := readFinished s + 1\<rparr>)"
      by (simp add: step_main_def)
    have "teardown_last ss (events s @ [WgAdd 1])"
      using t by (rule teardown_last_snoc_other) simp_all
    with assms(2) MAdd show ?thesis by (simp add: relay_inv_def s')
  next
    case MGo
    with assms(3) have s': "s' = emit [OpGo] (s\<lparr>mpc := MGet, upc := UGet\<rparr>)"
      by (simp add: step_main_def)
    have "teardown_last ss (events s @ [OpGo])"
      using t by (rule teardown_last_snoc_other) simp_all
    with assms(2) MGo show ?thesis by (simp add: relay_inv_def s')
  next
    case MGet
    with assms(3) have s': "s' = emit [BuffersGet] (s\<lparr>mpc := MCopy\<rparr>)"
      by (simp add: step_main_def)
    have "teardown_last ss (events s @ [BuffersGet])"
      using t by (rule teardown_last_snoc_other) simp_all
    with assms(2) MGet show ?thesis by (auto simp add: relay_inv_def s')
  next
    case MCopy
    with assms(3) have s': "s' = emit (CopyBuffer (clientConn ss) (connOut ss) r #
                      whenErr r [OpErrorf ''Unable to write to origin: %v'', Log Debug ''%v''])
                  (s\<lparr>mpc := MWait\<rparr>)"
      by (simp add: step_main_def)
    have 1: "teardown_last ss (events s @ [CopyBuffer (clientConn ss) (connOut ss) r])"
      using t by (rule teardown_last_snoc_other) simp_all
    then have 2: "teardown_last ss ((events s @ [CopyBuffer (clientConn ss) (connOut ss) r]) @
        [OpErrorf ''Unable to write to origin: %v''])"
      by (rule teardown_last_snoc_other) simp_all
    then have 3: "teardown_last ss (((events s @ [CopyBuffer (clientConn ss) (connOut ss) r]) @
        [OpErrorf ''Unable to write to origin: %v'']) @ [Log Debug ''%v''])"
      by (rule teardown_last_snoc_other) simp_all
    from 1 3 have "teardown_last ss (events s')"
      by (cases r) (simp_all add: s' whenErr_def)
    with assms(2) MCopy d show ?thesis
      by (cases r) (auto simp add: relay_inv_def s' whenErr_def)
  next
    case MWait
    with assms(3) have z: "readFinished s = 0" and s': "s' = emit [WgWait] (s\<lparr>mpc := MCloseClient\<rparr>)"
      by (simp_all add: step_main_def split: if_splits)
    have "teardown_last ss (events s @ [WgWait])"
      using t by (rule teardown_last_snoc_other) simp_all
    with assms(2) MWait z show ?thesis by (auto simp add: relay_inv_def s' split: if_splits)
  next
    case MCloseClient
    with assms(3) have s': "s' = emit (Close (clientConn ss) r #
                      whenErr r [Log Debug ''Error closing the out connection: %s''])
                  (s\<lparr>mpc := MCloseOut\<rparr>)"
      by (simp add: step_main_def)
    from assms(2) MCloseClient have 1: "teardown_last ss (events s @ [Close (clientConn ss) r])"
      by (intro teardown_last_snoc_close) (simp_all add: relay_inv_def)
    then have 2: "teardown_last ss ((events s @ [Close (clientConn ss) r]) @
        [Log Debug ''Error closing the out connection: %s''])"
      by (rule teardown_last_snoc_other) simp_all
    from 1 2 have "teardown_last ss (events s')"
      by (cases r) (simp_all add: s' whenErr_def)
    with assms(2) MCloseClient d show ?thesis
      by (cases r) (auto simp add: relay_inv_def s' whenErr_def)
  next
    case MCloseOut
    with assms(3) have s': "s' = emit (Close (connOut ss) r #
                      whenErr r [Log Debug ''Error closing the client connection: %s''])
                  (s\<lparr>mpc := MPut\<rparr>)"
      by (simp add: step_main_def)
    from assms(2) MCloseOut have 1: "teardown_last ss (events s @ [Close (connOut ss) r])"
      by (intro teardown_last_snoc_close) (simp_all add: relay_inv_def)
    then have 2: "teardown_last ss ((events s @ [Close (connOut ss) r]) @
        [Log Debug ''Error closing the client connection: %s''])"
      by (rule teardown_last_snoc_other) simp_all
    from 1 2 have "teardown_last ss (events s')"
      by (cases r) (simp_all add: s' whenErr_def)
    with assms(2) MCloseOut d show ?thesis
      by (cases r) (auto simp add: relay_inv_def s' whenErr_def)
  next
    case MPut
    with assms(3) have s': "s' = emit [BuffersPut] (s\<lparr>mpc := MReturned\<rparr>)"
      by (simp add: step_main_def)
    have "teardown_last ss (events s @ [BuffersPut])"
      using t by (rule teardown_last_snoc_other) simp_all
    with assms(2) MPut show ?thesis by (auto simp add: relay_inv_def s')
  next
    case MReturned
    with assms(3) show ?thesis by (simp add: step_main_def)
  qed
qed

lemma step_upload_inv:
  assumes "wf_session ss" and "relay_inv ss s" and "step_upload ss r s = Some s'"
  shows "relay_inv ss s'"
proof -
  from assms(1) have d: "clientConn ss \<noteq> connOut ss" "connOut ss \<noteq> clientConn ss"
    by (auto simp add: wf_session_def)
  from assms(2) have t: "teardown_last ss (events s)"
    by (simp add: relay_inv_def)
  show ?thesis
  proof (cases "upc s")
    case UNotStarted
    with assms(3) show ?thesis by (simp add: step_upload_def)
  next
    case UGet
    with assms(3) have s': "s' = emit [BuffersGet] (s\<lparr>upc := UCopy\<rparr>)"
      by (simp add: step_upload_def)
    have "teardown_last ss (events s @ [BuffersGet])"
      using t by (rule teardown_last_snoc_other) simp_all
    with assms(2) UGet show ?thesis by (auto simp add: relay_inv_def s')
  next
    case UCopy
    with assms(3) have s': "s' = emit (CopyBuffer (connOut ss) (clientConn ss) r #
                      whenErr r [OpErrorf ''Unable to read from origin: %v'', Log Debug ''%v''])
                  (s\<lparr>upc := UDone\<rparr>)"
      by (simp add: step_upload_def)
    have 1: "teardown_last ss (events s @ [CopyBuffer (connOut ss) (clientConn ss) r])"
      using t by (rule teardown_last_snoc_other) simp_all
    then have 2: "teardown_last ss ((events s @ [CopyBuffer (connOut ss) (clientConn ss) r]) @
        [OpErrorf ''Unable to read from origin: %v''])"
      by (rule teardown_last_snoc_other) simp_all
    then have 3: "teardown_last ss (((events s @ [CopyBuffer (connOut ss) (clientConn ss) r]) @
        [OpErrorf ''Unable to read from origin: %v'']) @ [Log Debug ''%v''])"
      by (rule teardown_last_snoc_other) simp_all
    from 1 3 have "teardown_last ss (events s')"
      by (cases r) (simp_all add: s' whenErr_def)
    with assms(2) UCopy d show ?thesis
      by (cases r) (auto simp add: relay_inv_def s' whenErr_def)
  next
    case UDone
    with assms(3) have s': "s' = emit [WgDone] (s\<lparr>upc := UPut, readFinished := readFinished s - 1\<rparr>)"
      by (simp add: step_upload_def)
    have "teardown_last ss (events s @ [WgDone])"
      using t by (rule teardown_last_snoc_other) simp_all
    with assms(2) UDone show ?thesis by (auto simp add: relay_inv_def s' split: if_splits)
  next
    case UPut
    with assms(3) have s': "s' = emit [BuffersPut] (s\<lparr>upc := UExited\<rparr>)"
      by (simp add: step_upload_def)
    have "teardown_last ss (events s @ [BuffersPut])"
      using t by (rule teardown_last_snoc_other) simp_all
    with assms(2) UPut show ?thesis by (auto simp add: relay_inv_def s')
  next
    case UExited
    with assms(3) show ?thesis by (simp add: step_upload_def)
  qed
qed

lemma chunk_inv:
  assumes "wf_session ss" and "relay_inv ss s"
    and "closes (clientConn ss) (events s) = 0" and "closes (connOut ss) (events s) = 0"
  shows "relay_inv ss (emit [Read x, Write y] s)"
proof -
  from assms(2) have t: "teardown_last ss (events s)"
    by (simp add: relay_inv_def)
  have 1: "teardown_last ss (events s @ [Read x])"
    by (rule teardown_last_snoc_other [OF t]) (simp_all add: assms(3,4))
  have "teardown_last ss ((events s @ [Read x]) @ [Write y])"
    by (rule teardown_last_snoc_other [OF 1]) (simp_all add: assms(3,4))
  with assms(2) show ?thesis by (simp add: relay_inv_def)
qed

lemma idle_inv:
  assumes "wf_session ss" and "relay_inv ss s"
  shows "relay_inv ss (emit [Close (connOutRaw ss) r] s)"
proof -
  from assms(1) have d: "connOutRaw ss \<noteq> clientConn ss" "connOutRaw ss \<noteq> connOut ss"
    by (auto simp add: wf_session_def)
  from assms(2) have t: "teardown_last ss (events s)"
    by (simp add: relay_inv_def)
  have "teardown_last ss (events s @ [Close (connOutRaw ss) r])"
    by (rule teardown_last_snoc_other [OF t]) (simp_all add: d)
  with assms(2) d show ?thesis by (simp add: relay_inv_def)
qed

lemma step_inv:
  assumes "wf_session ss" and "relay_inv ss s" and "step ss a s = Some s'"
  shows "relay_inv ss s'"
proof (cases a)
  case (Main r)
  with assms show ?thesis by (auto simp add: step_def intro: step_main_inv)
next
  case MainChunk
  with assms(3) have m: "mpc s = MCopy" and s': "s' = emit [Read (connOut ss), Write (clientConn ss)] s"
    by (simp_all add: step_def split: if_splits)
  from assms(2) m have "closes (clientConn ss) (events s) = 0" "closes (connOut ss) (events s) = 0"
    by (simp_all add: relay_inv_def)
  with assms(1,2) show ?thesis unfolding s' by (rule chunk_inv)
next
  case (Upload r)
  with assms show ?thesis by (auto simp add: step_def intro: step_upload_inv)
next
  case UploadChunk
  with assms(3) have u: "upc s = UCopy" and s': "s' = emit [Read (clientConn ss), Write (connOut ss)] s"
    by (simp_all add: step_def split: if_splits)
  from assms(2) u have "\<not> 5 \<le> mrank (mpc s)"
    by (auto simp add: relay_inv_def)
  with assms(2) have "closes (clientConn ss) (events s) = 0" "closes (connOut ss) (events s) = 0"
    by (simp_all add: relay_inv_def)
  with assms(1,2) show ?thesis unfolding s' by (rule chunk_inv)
next
  case (OnIdle r)
  with assms(3) have s': "s' = emit [Close (connOutRaw ss) r] s"
    by (simp add: step_def)
  from assms(1,2) show ?thesis unfolding s' by (rule idle_inv)
qed

lemma run_inv:
  "wf_session ss \<Longrightarrow> relay_inv ss s \<Longrightarrow> run ss sched s = Some s' \<Longrightarrow> relay_inv ss s'"
proof (induction sched arbitrary: s)
  case Nil
  then show ?case by simp
next
  case (Cons a sched)
  from Cons.prems(3) obtain s1 where 1: "step ss a s = Some s1" and 2: "run ss sched s1 = Some s'"
    by (auto split: option.splits)
  from Cons.prems(1,2) 1 have "relay_inv ss s1" by (rule step_inv)
  with Cons.IH Cons.prems(1) 2 show ?case by blast
qed

lemma intercept_session_wf:
  "session_of (snd (intercept f e req)) = Some ss \<Longrightarrow> wf_session ss"
  by (auto simp add: intercept_def wf_session_def split: option.splits sum.splits)

lemma mrank_le: "mrank p \<le> 8"
  by (cases p) simp_all

lemma urank_le: "urank p \<le> 5"
  by (cases p) simp_all

lemma main_enabled:
  assumes "mpc s \<noteq> MReturned" and "mpc s = MWait \<Longrightarrow> readFinished s = 0"
    and "mpc s = MGo \<Longrightarrow> upc s = UNotStarted"
  shows "\<exists>s'. step_main ss None s = Some s' \<and> mrank (mpc s') = Suc (mrank (mpc s)) \<and>
               urank (upc s) \<le> urank (upc s')"
  using assms by (cases "mpc s") (simp_all add: step_main_def whenErr_def)

lemma upload_enabled:
  assumes "upc s \<noteq> UNotStarted" and "upc s \<noteq> UExited"
  shows "\<exists>s'. step_upload ss None s = Some s' \<and> urank (upc s') = Suc (urank (upc s)) \<and>
               mpc s' = mpc s"
  using assms by (cases "upc s") (simp_all add: step_upload_def whenErr_def)

lemma relay_can_finish:
  assumes wf: "wf_session ss"
  shows "relay_inv ss s \<Longrightarrow> \<exists>sched s'. run ss sched s = Some s' \<and> mpc s' = MReturned"
proof (induction s rule: measure_induct_rule [where f = "\<lambda>s. 13 - mrank (mpc s) - urank (upc s)"])
  case (less s)
  show ?case
  proof (cases "mpc s = MReturned")
    case True
    then have "run ss [] s = Some s \<and> mpc s = MReturned" by simp
    then show ?thesis by blast
  next
    case False
    have "\<exists>a s1. step ss a s = Some s1 \<and>
            13 - mrank (mpc s1) - urank (upc s1) < 13 - mrank (mpc s) - urank (upc s)"
    proof (cases "mpc s = MWait \<and> readFinished s \<noteq> 0")
      case True
      with less.prems have u: "upc s \<noteq> UNotStarted" "\<not> 4 \<le> urank (upc s)"
        by (auto simp add: relay_inv_def split: if_splits)
      then have "upc s \<noteq> UExited" by auto
      from upload_enabled [OF u(1) this, of ss] obtain s1 where
        s1: "step_upload ss None s = Some s1" "urank (upc s1) = Suc (urank (upc s))" "mpc s1 = mpc s"
        by blast
      from True u(2) s1(2,3) have
        "13 - mrank (mpc s1) - urank (upc s1) < 13 - mrank (mpc s) - urank (upc s)"
        by simp
      moreover from s1(1) have "step ss (Upload None) s = Some s1" by (simp add: step_def)
      ultimately show ?thesis by blast
    next
      case no_wait: False
      then have "mpc s = MWait \<Longrightarrow> readFinished s = 0" by blast
      moreover from less.prems have "mpc s = MGo \<Longrightarrow> upc s = UNotStarted"
        by (simp add: relay_inv_def)
      ultimately obtain s1 where
        s1: "step_main ss None s = Some s1" "mrank (mpc s1) = Suc (mrank (mpc s))"
            "urank (upc s) \<le> urank (upc s1)"
        using main_enabled [OF False, of ss] by blast
      from s1(2) mrank_le [of "mpc s1"] urank_le [of "upc s1"] s1(3) have
        "13 - mrank (mpc s1) - urank (upc s1) < 13 - mrank (mpc s) - urank (upc s)"
        by simp
      moreover from s1(1) have "step ss (Main None) s = Some s1" by (simp add: step_def)
      ultimately show ?thesis by blast
    qed
    then obtain a s1 where st: "step ss a s = Some s1"
      and m: "13 - mrank (mpc s1) - urank (upc s1) < 13 - mrank (mpc s) - urank (upc s)"
      by blast
    from wf less.prems st have "relay_inv ss s1" by (rule step_inv)
    from less.IH [OF m this] obtain sched s' where "run ss sched s1 = Some s'" "mpc s' = MReturned"
      by blast
    with st have "run ss (a # sched) s = Some s' \<and> mpc s' = MReturned" by simp
    then show ?thesis by blast
  qed
qed

lemma run_append:
  "run ss (xs @ ys) s = (case run ss xs s of None \<Rightarrow> None | Some s1 \<Rightarrow> run ss ys s1)"
  by (induction xs arbitrary: s) (auto split: option.splits)

lemma ServeHTTP_session:
  "session_of (snd (ServeHTTP f e req)) = Some ss \<Longrightarrow>
     session_of (snd (intercept f e req)) = Some ss"
  by (auto simp add: ServeHTTP_def Let_def split: if_splits prod.splits outcome.splits)

lemma ServeHTTP_relay_iff:
  "(\<exists>ss. session_of (snd (ServeHTTP f e req)) = Some ss) \<longleftrightarrow>
     Method req = ''CONNECT'' \<and> snd (portAllowed f req) \<and>
     (\<exists>c d. hijacker e = Some (Inr c) \<and> dial e = Inr d)"
  by (auto simp add: ServeHTTP_def intercept_def Let_def
      split: if_splits prod.splits outcome.splits option.splits sum.splits)

text \<open>
  C1. Take a CONNECT session that reaches the relay (the request was authorized and the
  hijack and the dial both succeeded, \<open>ServeHTTP_relay_iff\<close>) and any schedule of the two goroutines, with any results of the copies and of
  the closes and with the idle callback firing at any moment. At every moment of the run
  the relay has closed the client connection at most once and the outbound connection
  (the idle-timing wrapper the relay holds) at most once, the outbound one only if the
  client one; when the calling path has returned, each has been closed exactly once. Each
  of these closes comes after the upload goroutine's \<^verbatim>\<open>Done\<close> and after the return of
  both copies, and no read or write of a copy loop follows it. The relay itself never
  blocks the teardown: every run can be continued until the calling path has returned.
  The idle callback closes the raw outbound connection, another handle; its closes are not
  counted here.
\<close>

theorem relay_teardown:
  fixes s :: "('x, 'y) relay"
  assumes "session_of (snd (ServeHTTP f e req)) = Some ss"
    and "run ss sched relay_init = Some s"
  shows "closes (clientConn ss) (events s) \<le> 1
    \<and> closes (connOut ss) (events s) \<le> 1
    \<and> closes (connOut ss) (events s) \<le> closes (clientConn ss) (events s)
    \<and> (mpc s = MReturned \<longrightarrow>
          closes (clientConn ss) (events s) = 1 \<and> closes (connOut ss) (events s) = 1)
    \<and> (\<forall>pre x r post.
          events s = pre @ Close x r # post \<and> (x = clientConn ss \<or> x = connOut ss) \<longrightarrow>
            WgDone \<in> set pre \<and>
            (\<exists>r'. CopyBuffer (connOut ss) (clientConn ss) r' \<in> set pre) \<and>
            (\<exists>r'. CopyBuffer (clientConn ss) (connOut ss) r' \<in> set pre) \<and>
            \<not> list_ex isIO post)
    \<and> (\<exists>sched' s' :: ('x, 'y) relay.
          run ss (sched @ sched') relay_init = Some s' \<and> mpc s' = MReturned)"
proof -
  from assms(1) have wf: "wf_session ss"
    by (intro intercept_session_wf ServeHTTP_session)
  from wf relay_inv_init assms(2) have inv: "relay_inv ss s"
    by (rule run_inv)
  from inv have c: "closes (clientConn ss) (events s) = (if 6 \<le> mrank (mpc s) then 1 else 0)"
    and d: "closes (connOut ss) (events s) = (if 7 \<le> mrank (mpc s) then 1 else 0)"
    by (simp_all add: relay_inv_def)
  from inv have "teardown_last ss (events s)"
    by (simp add: relay_inv_def)
  then have t: "\<forall>pre x r post.
          events s = pre @ Close x r # post \<and> (x = clientConn ss \<or> x = connOut ss) \<longrightarrow>
            WgDone \<in> set pre \<and>
            (\<exists>r'. CopyBuffer (connOut ss) (clientConn ss) r' \<in> set pre) \<and>
            (\<exists>r'. CopyBuffer (clientConn ss) (connOut ss) r' \<in> set pre) \<and>
            \<not> list_ex isIO post"
    unfolding teardown_last_def .
  from relay_can_finish [OF wf inv] obtain sched' s' where
    "run ss sched' s = Some s'" "mpc s' = MReturned"
    by blast
  with assms(2) have f: "\<exists>sched' s' :: ('x, 'y) relay.
      run ss (sched @ sched') relay_init = Some s' \<and> mpc s' = MReturned"
    by (auto simp add: run_append)
  from c d have "closes (clientConn ss) (events s) \<le> 1"
    and "closes (connOut ss) (events s) \<le> 1"
    and "closes (connOut ss) (events s) \<le> closes (clientConn ss) (events s)"
    and "mpc s = MReturned \<longrightarrow>
          closes (clientConn ss) (events s) = 1 \<and> closes (connOut ss) (events s) = 1"
    by simp_all
  with t f show ?thesis by blast
qed

theorem relay_teardown_witness:
  "session_of (snd (ServeHTTP
       \<lparr>next_handler = (7::nat), idleTimeout = 0, allowedPorts = [443, 8443]\<rparr>
       \<lparr>traceEnabled = False, hijacker = Some (Inr 1), dial = Inr 2\<rparr>
       \<lparr>Method = ''CONNECT'', Host = ''example.com:443''\<rparr>)) =
     Some \<lparr>clientConn = Hijacked 1, connOutRaw = Dialed 2,
           connOut = IdleTimingConn (Dialed 2) 0\<rparr>
   \<and> run \<lparr>clientConn = Hijacked 1, connOutRaw = Dialed 2, connOut = IdleTimingConn (Dialed 2) 0\<rparr>
        [Main None, Main None, Upload None, Main None, MainChunk, UploadChunk, OnIdle None,
         Main (Some (NetError ''closed'')), Upload None, Upload None, Main None, Main None,
         Main (Some (NetError ''closed'')), Upload None, Main None]
        (relay_init :: (nat, Request) relay) =
      Some \<lparr>mpc = MReturned, upc = UExited, readFinished = 0,
        events =
          [WgAdd 1, OpGo, BuffersGet, BuffersGet,
           Read (IdleTimingConn (Dialed 2) 0), Write (Hijacked 1),
           Read (Hijacked 1), Write (IdleTimingConn (Dialed 2) 0),
           Close (Dialed 2) None,
           CopyBuffer (Hijacked 1) (IdleTimingConn (Dialed 2) 0) (Some (NetError ''closed'')),
           OpErrorf ''Unable to write to origin: %v'', Log Debug ''%v'',
           CopyBuffer (IdleTimingConn (Dialed 2) 0) (Hijacked 1) None,
           WgDone, WgWait,
           Close (Hijacked 1) None,
           Close (IdleTimingConn (Dialed 2) 0) (Some (NetError ''closed'')),
           Log Debug ''Error closing the client connection: %s'',
           BuffersPut, BuffersPut]\<rparr>
   \<and> closes (Hijacked 1)
        [WgAdd 1, OpGo, BuffersGet, BuffersGet,
         Read (IdleTimingConn (Dialed 2) 0), Write (Hijacked 1),
         Read (Hijacked 1), Write (IdleTimingConn (Dialed 2) 0),
         Close (Dialed 2) None,
         CopyBuffer (Hijacked 1) (IdleTimingConn (Dialed 2) 0) (Some (NetError ''closed'')),
         OpErrorf ''Unable to write to origin: %v'', Log Debug ''%v'',
         CopyBuffer (IdleTimingConn (Dialed 2) 0) (Hijacked 1) None,
         WgDone, WgWait,
         Close (Hijacked 1) None,
         Close (IdleTimingConn (Dialed 2) 0) (Some (NetError ''closed'')),
         Log Debug ''Error closing the client connection: %s'',
         BuffersPut, BuffersPut :: (nat, Request) event] = 1
   \<and> closes (IdleTimingConn (Dialed 2) 0)
        [WgAdd 1, OpGo, BuffersGet, BuffersGet,
         Read (IdleTimingConn (Dialed 2) 0), Write (Hijacked 1),
         Read (Hijacked 1), Write (IdleTimingConn (Dialed 2) 0),
         Close (Dialed 2) None,
         CopyBuffer (Hijacked 1) (IdleTimingConn (Dialed 2) 0) (Some (NetError ''closed'')),
         OpErrorf ''Unable to write to origin: %v'', Log Debug ''%v'',
         CopyBuffer (IdleTimingConn (Dialed 2) 0) (Hijacked 1) None,
         WgDone, WgWait,
         Close (Hijacked 1) None,
         Close (IdleTimingConn (Dialed 2) 0) (Some (NetError ''closed'')),
         Log Debug ''Error closing the client connection: %s'',
         BuffersPut, BuffersPut :: (nat, Request) event] = 1"
proof -
  have ses: "session_of (snd (ServeHTTP
       \<lparr>next_handler = (7::nat), idleTimeout = 0, allowedPorts = [443, 8443]\<rparr>
       \<lparr>traceEnabled = False, hijacker = Some (Inr 1), dial = Inr 2\<rparr>
       \<lparr>Method = ''CONNECT'', Host = ''example.com:443''\<rparr>)) =
     Some \<lparr>clientConn = Hijacked 1, connOutRaw = Dialed 2,
           connOut = IdleTimingConn (Dialed 2) 0\<rparr>"
    by (simp add: ServeHTTP_def portAllowed_def intercept_def SplitHostPort_443 Atoi_443)
  have r: "run \<lparr>clientConn = Hijacked 1, connOutRaw = Dialed 2, connOut = IdleTimingConn (Dialed 2) 0\<rparr>
        [Main None, Main None, Upload None, Main None, MainChunk, UploadChunk, OnIdle None,
         Main (Some (NetError ''closed'')), Upload None, Upload None, Main None, Main None,
         Main (Some (NetError ''closed'')), Upload None, Main None]
        (relay_init :: (nat, Request) relay) =
      Some \<lparr>mpc = MReturned, upc = UExited, readFinished = 0,
        events =
          [WgAdd 1, OpGo, BuffersGet, BuffersGet,
           Read (IdleTimingConn (Dialed 2) 0), Write (Hijacked 1),
           Read (Hijacked 1), Write (IdleTimingConn (Dialed 2) 0),
           Close (Dialed 2) None,
           CopyBuffer (Hijacked 1) (IdleTimingConn (Dialed 2) 0) (Some (NetError ''closed'')),
           OpErrorf ''Unable to write to origin: %v'', Log Debug ''%v'',
           CopyBuffer (IdleTimingConn (Dialed 2) 0) (Hijacked 1) None,
           WgDone, WgWait,
           Close (Hijacked 1) None,
           Close (IdleTimingConn (Dialed 2) 0) (Some (NetError ''closed'')),
           Log Debug ''Error closing the client connection: %s'',
           BuffersPut, BuffersPut]\<rparr>"
    by (simp add: step_def step_main_def step_upload_def emit_def whenErr_def relay_init_def)
  from relay_teardown [OF ses r] ses r show ?thesis
    by simp
qed

end
